theory Spec2Isabelle
  imports Main
begin

section \<open>The esphome runtime registry (\<open>domain_data.py\<close>)\<close>

text \<open>
  A shallow embedding of \<open>homeassistant/components/esphome/domain_data.py\<close>.
  Python objects that the module only stores and hands back (runtime entry data, GATT
  service collections) are references; the objects the module itself constructs
  (\<open>DomainData\<close>, \<open>ESPHomeStorage\<close>) live in an explicit heap, so that "the same
  instance" is equality of references. Every method takes the registry and returns its
  result together with the registry after the call; a raised exception is the \<open>Inl\<close>
  branch of the result.
\<close>

subsection \<open>Python values, exceptions, the heap\<close>

type_synonym ref = nat

datatype error = KeyError | ValueError string

type_synonym 'a result = "error + 'a"

text \<open>
  \<open>ConfigEntry\<close> (homeassistant/config_entries.py) is a host object; the module reads
  its \<open>entry_id\<close> only. Two further attributes stand for the rest of the object.
\<close>

record ConfigEntry =
  entry_id :: string
  domain :: string
  title :: string

text \<open>\<open>hass.data\<close> is a \<open>dict[str, Any]\<close>: keys are strings, values are references.\<close>

record HomeAssistant =
  data :: "string \<rightharpoonup> ref"

datatype encoder = JSONEncoder

text \<open>
  Modelled from the spec: \<open>ESPHomeStorage\<close> is declared in \<open>entry_data.py\<close>, which is
  not among the sources. The spec describes the handle by what it is constructed with: a
  schema version, a storage key and a serialization strategy.
\<close>

record ESPHomeStorage =
  store_version :: int
  store_key :: string
  store_encoder :: "encoder option"

subsection \<open>The bounded cache \<open>lru.LRU\<close>\<close>

text \<open>
  Modelled from the spec: the \<open>LRU\<close> container comes from the external package
  \<open>lru\<close>. The spec describes it as a fixed-capacity mapping with least-recently-used
  eviction, supporting get, set-with-eviction and remove, where the entry discarded is
  the one that has gone the longest without being accessed. The items are kept most
  recently used first, so the eviction candidate is the last one.
\<close>

record ('k, 'v) LRU =
  lru_size :: nat
  lru_items :: "('k \<times> 'v) list"

definition LRU_init :: "nat \<Rightarrow> ('k, 'v) LRU" where
  "LRU_init capacity = \<lparr>lru_size = capacity, lru_items = []\<rparr>"

definition lru_remove :: "'k \<Rightarrow> ('k \<times> 'v) list \<Rightarrow> ('k \<times> 'v) list" where
  "lru_remove k items = filter (\<lambda>p. fst p \<noteq> k) items"

text \<open>\<open>cache[key]\<close>: a hit moves the entry to the front, a miss raises \<open>KeyError\<close>.\<close>

definition lru_getitem :: "('k, 'v) LRU \<Rightarrow> 'k \<Rightarrow> 'v result \<times> ('k, 'v) LRU" where
  "lru_getitem c k =
     (case map_of (lru_items c) k of
        None \<Rightarrow> (Inl KeyError, c)
      | Some v \<Rightarrow> (Inr v, c\<lparr>lru_items := (k, v) # lru_remove k (lru_items c)\<rparr>))"

text \<open>
  \<open>cache.get(key)\<close>, the mapping method with its default \<open>None\<close>: the lookup with the
  \<open>KeyError\<close> caught.
\<close>

definition lru_get :: "('k, 'v) LRU \<Rightarrow> 'k \<Rightarrow> 'v option \<times> ('k, 'v) LRU" where
  "lru_get c k =
     (case lru_getitem c k of
        (Inl e, c') \<Rightarrow> (None, c')
      | (Inr v, c') \<Rightarrow> (Some v, c'))"

text \<open>
  \<open>cache[key] = value\<close>: an entry that is present is overwritten and moved to the
  front; a new entry goes to the front, after the least recently used entry has been
  dropped when the cache is full.
\<close>

definition lru_setitem :: "('k, 'v) LRU \<Rightarrow> 'k \<Rightarrow> 'v \<Rightarrow> ('k, 'v) LRU" where
  "lru_setitem c k v =
     (case map_of (lru_items c) k of
        Some old \<Rightarrow> c\<lparr>lru_items := (k, v) # lru_remove k (lru_items c)\<rparr>
      | None \<Rightarrow>
          (if lru_size c \<le> length (lru_items c)
           then c\<lparr>lru_items := (k, v) # butlast (lru_items c)\<rparr>
           else c\<lparr>lru_items := (k, v) # lru_items c\<rparr>))"

text \<open>
  \<open>cache.pop(key[, default])\<close>: removes and returns the entry; on a miss it returns the
  default when one was passed (\<open>Some d\<close>) and raises \<open>KeyError\<close> otherwise.
\<close>

definition lru_pop ::
  "('k, 'v) LRU \<Rightarrow> 'k \<Rightarrow> 'v option option \<Rightarrow> 'v option result \<times> ('k, 'v) LRU" where
  "lru_pop c k dflt =
     (case map_of (lru_items c) k of
        Some v \<Rightarrow> (Inr (Some v), c\<lparr>lru_items := lru_remove k (lru_items c)\<rparr>)
      | None \<Rightarrow>
          (case dflt of
             None \<Rightarrow> (Inl KeyError, c)
           | Some d \<Rightarrow> (Inr d, c)))"

subsection \<open>\<open>DomainData\<close>\<close>

definition STORAGE_VERSION :: int where
  "STORAGE_VERSION = 1"

definition MAX_CACHED_SERVICES :: nat where
  "MAX_CACHED_SERVICES = 128"

text \<open>
  Modelled from the spec: \<open>DOMAIN\<close> is imported from \<open>const.py\<close>, which is not among
  the sources; it names the integration's well-known slot in \<open>hass.data\<close>.
\<close>

definition DOMAIN :: string where
  "DOMAIN = ''esphome''"

record DomainData =
  entry_datas :: "string \<rightharpoonup> ref"
  stores :: "string \<rightharpoonup> ref"
  gatt_services_cache :: "(int, ref) LRU"
  gatt_mtu_cache :: "(int, int) LRU"

datatype obj = DomainDataObj DomainData | ESPHomeStorageObj ESPHomeStorage

text \<open>
  The heap records the objects this module constructs, each with the state it was
  constructed with. A reference is an index into it; constructing an object appends it,
  so a new reference is always fresh. The registry's state after later calls is the
  \<open>self\<close> value threaded through the methods.
\<close>

type_synonym heap = "obj list"

definition alloc :: "heap \<Rightarrow> obj \<Rightarrow> ref \<times> heap" where
  "alloc h x = (length h, h @ [x])"

text \<open>
  \<open>cls()\<close>: the dataclass defaults. Each field comes from its own factory, so the two
  maps and the two caches are four separate objects; the record keeps them as four
  separate values.
\<close>

definition DomainData_init :: DomainData where
  "DomainData_init =
     \<lparr>entry_datas = Map.empty,
      stores = Map.empty,
      gatt_services_cache = LRU_init MAX_CACHED_SERVICES,
      gatt_mtu_cache = LRU_init MAX_CACHED_SERVICES\<rparr>"

text \<open>\<open>ESPHomeStorage(hass, version, key, encoder=...)\<close>\<close>

definition ESPHomeStorage_init ::
  "heap \<Rightarrow> HomeAssistant \<Rightarrow> int \<Rightarrow> string \<Rightarrow> encoder option \<Rightarrow> ref \<times> heap" where
  "ESPHomeStorage_init h hass version key enc =
     alloc h (ESPHomeStorageObj
       \<lparr>store_version = version, store_key = key, store_encoder = enc\<rparr>)"

definition get_gatt_services_cache ::
  "DomainData \<Rightarrow> int \<Rightarrow> ref option result \<times> DomainData" where
  "get_gatt_services_cache self address =
     (case lru_get (gatt_services_cache self) address of
        (v, c) \<Rightarrow> (Inr v, self\<lparr>gatt_services_cache := c\<rparr>))"

definition set_gatt_services_cache ::
  "DomainData \<Rightarrow> int \<Rightarrow> ref \<Rightarrow> unit result \<times> DomainData" where
  "set_gatt_services_cache self address services =
     (Inr (),
      self\<lparr>gatt_services_cache := lru_setitem (gatt_services_cache self) address services\<rparr>)"

definition clear_gatt_services_cache ::
  "DomainData \<Rightarrow> int \<Rightarrow> unit result \<times> DomainData" where
  "clear_gatt_services_cache self address =
     (case lru_pop (gatt_services_cache self) address (Some None) of
        (Inl e, c) \<Rightarrow> (Inl e, self\<lparr>gatt_services_cache := c\<rparr>)
      | (Inr v, c) \<Rightarrow> (Inr (), self\<lparr>gatt_services_cache := c\<rparr>))"

definition get_gatt_mtu_cache ::
  "DomainData \<Rightarrow> int \<Rightarrow> int option result \<times> DomainData" where
  "get_gatt_mtu_cache self address =
     (case lru_get (gatt_mtu_cache self) address of
        (v, c) \<Rightarrow> (Inr v, self\<lparr>gatt_mtu_cache := c\<rparr>))"

definition set_gatt_mtu_cache ::
  "DomainData \<Rightarrow> int \<Rightarrow> int \<Rightarrow> unit result \<times> DomainData" where
  "set_gatt_mtu_cache self address mtu =
     (Inr (), self\<lparr>gatt_mtu_cache := lru_setitem (gatt_mtu_cache self) address mtu\<rparr>)"

definition clear_gatt_mtu_cache ::
  "DomainData \<Rightarrow> int \<Rightarrow> unit result \<times> DomainData" where
  "clear_gatt_mtu_cache self address =
     (case lru_pop (gatt_mtu_cache self) address (Some None) of
        (Inl e, c) \<Rightarrow> (Inl e, self\<lparr>gatt_mtu_cache := c\<rparr>)
      | (Inr v, c) \<Rightarrow> (Inr (), self\<lparr>gatt_mtu_cache := c\<rparr>))"

text \<open>\<open>self._entry_datas[entry.entry_id]\<close>: a missing key raises \<open>KeyError\<close>.\<close>

definition get_entry_data :: "DomainData \<Rightarrow> ConfigEntry \<Rightarrow> ref result \<times> DomainData" where
  "get_entry_data self entry =
     (case entry_datas self (entry_id entry) of
        None \<Rightarrow> (Inl KeyError, self)
      | Some entry_data \<Rightarrow> (Inr entry_data, self))"

definition set_entry_data ::
  "DomainData \<Rightarrow> ConfigEntry \<Rightarrow> ref \<Rightarrow> unit result \<times> DomainData" where
  "set_entry_data self entry entry_data =
     (if entry_datas self (entry_id entry) \<noteq> None
      then (Inl (ValueError ''Entry data for this entry is already set''), self)
      else (Inr (),
            self\<lparr>entry_datas := (entry_datas self)(entry_id entry \<mapsto> entry_data)\<rparr>))"

text \<open>\<open>self._entry_datas.pop(entry.entry_id)\<close>, no default: a missing key raises.\<close>

definition pop_entry_data :: "DomainData \<Rightarrow> ConfigEntry \<Rightarrow> ref result \<times> DomainData" where
  "pop_entry_data self entry =
     (case entry_datas self (entry_id entry) of
        None \<Rightarrow> (Inl KeyError, self)
      | Some entry_data \<Rightarrow>
          (Inr entry_data,
           self\<lparr>entry_datas := (entry_datas self)(entry_id entry := None)\<rparr>))"

text \<open>
  \<open>self._stores.setdefault(entry.entry_id, ESPHomeStorage(...))\<close>: Python evaluates the
  arguments first, so the storage object is constructed on every call; \<open>setdefault\<close>
  then keeps the stored handle when the key is present and stores the new one otherwise.
\<close>

definition get_or_create_store ::
  "DomainData \<Rightarrow> heap \<Rightarrow> HomeAssistant \<Rightarrow> ConfigEntry \<Rightarrow> ref \<times> DomainData \<times> heap" where
  "get_or_create_store self h hass entry =
     (case ESPHomeStorage_init h hass STORAGE_VERSION
             (''esphome.'' @ entry_id entry) (Some JSONEncoder) of
        (new, h') \<Rightarrow>
          (case stores self (entry_id entry) of
             Some store \<Rightarrow> (store, self, h')
           | None \<Rightarrow> (new, self\<lparr>stores := (stores self)(entry_id entry \<mapsto> new)\<rparr>, h')))"

text \<open>
  The class method \<open>DomainData.get(hass)\<close>: the instance in \<open>hass.data[DOMAIN]\<close> when
  the key is present, else a new instance, stored there and returned.
\<close>

definition get :: "heap \<Rightarrow> HomeAssistant \<Rightarrow> ref \<times> heap \<times> HomeAssistant" where
  "get h hass =
     (case data hass DOMAIN of
        Some inst \<Rightarrow> (inst, h, hass)
      | None \<Rightarrow>
          (case alloc h (DomainDataObj DomainData_init) of
             (ret, h') \<Rightarrow> (ret, h', hass\<lparr>data := (data hass)(DOMAIN \<mapsto> ret)\<rparr>)))"

subsection \<open>Sequences of calls\<close>

text \<open>
  A caller of the registry makes any sequence of method calls. A call that raises leaves
  the state as the method left it, and the caller goes on.
\<close>

datatype call =
    Get_gatt_services_cache int
  | Set_gatt_services_cache int ref
  | Clear_gatt_services_cache int
  | Get_gatt_mtu_cache int
  | Set_gatt_mtu_cache int int
  | Clear_gatt_mtu_cache int
  | Get_entry_data ConfigEntry
  | Set_entry_data ConfigEntry ref
  | Pop_entry_data ConfigEntry
  | Get_or_create_store HomeAssistant ConfigEntry

fun invoke :: "DomainData \<times> heap \<Rightarrow> call \<Rightarrow> DomainData \<times> heap" where
  "invoke (self, h) (Get_gatt_services_cache a) = (snd (get_gatt_services_cache self a), h)"
| "invoke (self, h) (Set_gatt_services_cache a v) = (snd (set_gatt_services_cache self a v), h)"
| "invoke (self, h) (Clear_gatt_services_cache a) = (snd (clear_gatt_services_cache self a), h)"
| "invoke (self, h) (Get_gatt_mtu_cache a) = (snd (get_gatt_mtu_cache self a), h)"
| "invoke (self, h) (Set_gatt_mtu_cache a m) = (snd (set_gatt_mtu_cache self a m), h)"
| "invoke (self, h) (Clear_gatt_mtu_cache a) = (snd (clear_gatt_mtu_cache self a), h)"
| "invoke (self, h) (Get_entry_data e) = (snd (get_entry_data self e), h)"
| "invoke (self, h) (Set_entry_data e d) = (snd (set_entry_data self e d), h)"
| "invoke (self, h) (Pop_entry_data e) = (snd (pop_entry_data self e), h)"
| "invoke (self, h) (Get_or_create_store hass e) = snd (get_or_create_store self h hass e)"

definition invoke_all :: "DomainData \<times> heap \<Rightarrow> call list \<Rightarrow> DomainData \<times> heap" where
  "invoke_all = foldl invoke"

text \<open>Two config entries with the same identifier and nothing else in common, and a third.\<close>

definition entry_a :: ConfigEntry where
  "entry_a = \<lparr>entry_id = ''a1'', domain = ''esphome'', title = ''kitchen''\<rparr>"

definition entry_a' :: ConfigEntry where
  "entry_a' = \<lparr>entry_id = ''a1'', domain = ''other'', title = ''hall''\<rparr>"

definition entry_b :: ConfigEntry where
  "entry_b = \<lparr>entry_id = ''b2'', domain = ''esphome'', title = ''kitchen''\<rparr>"

definition hass_empty :: HomeAssistant where
  "hass_empty = \<lparr>data = Map.empty\<rparr>"

subsection \<open>Well-formed registries\<close>

text \<open>
  What every registry reached from \<open>DomainData()\<close> satisfies: each cache has capacity
  \<open>MAX_CACHED_SERVICES\<close>, distinct keys and no more entries than its capacity, and every
  handle in the store map is a storage object on the heap, constructed for that identifier.
\<close>

definition cache_ok :: "('k, 'v) LRU \<Rightarrow> bool" where
  "cache_ok c \<longleftrightarrow>
     lru_size c = MAX_CACHED_SERVICES \<and> distinct (map fst (lru_items c)) \<and>
     length (lru_items c) \<le> lru_size c"

definition stores_ok :: "DomainData \<Rightarrow> heap \<Rightarrow> bool" where
  "stores_ok self h \<longleftrightarrow>
     (\<forall>i r. stores self i = Some r \<longrightarrow>
        r < length h \<and>
        h ! r = ESPHomeStorageObj
          \<lparr>store_version = STORAGE_VERSION, store_key = ''esphome.'' @ i,
           store_encoder = Some JSONEncoder\<rparr>)"

definition registry_ok :: "DomainData \<times> heap \<Rightarrow> bool" where
  "registry_ok st \<longleftrightarrow>
     cache_ok (gatt_services_cache (fst st)) \<and> cache_ok (gatt_mtu_cache (fst st)) \<and>
     stores_ok (fst st) (snd st)"

text \<open>Example inputs: a registry with one entry in each cache, and 129 distinct addresses.\<close>

definition registry_5 :: DomainData where
  "registry_5 =
     \<lparr>entry_datas = Map.empty, stores = Map.empty,
      gatt_services_cache = \<lparr>lru_size = 128, lru_items = [(5, 1)]\<rparr>,
      gatt_mtu_cache = \<lparr>lru_size = 128, lru_items = [(5, 23)]\<rparr>\<rparr>"



section \<open>Reachable registries are well formed\<close>

subsection \<open>The cache keeps its keys distinct and its size bounded\<close>

lemma distinct_lru_remove: "distinct (map fst xs) \<Longrightarrow> distinct (map fst (lru_remove k xs))"
  by (simp add: lru_remove_def distinct_map_filter)

lemma lru_remove_absent: "map_of xs k = None \<Longrightarrow> lru_remove k xs = xs"
  by (induction xs) (auto simp: lru_remove_def split: if_splits)

lemma keys_lru_remove: "fst ` set (lru_remove k xs) = fst ` set xs - {k}"
  by (auto simp: lru_remove_def)

lemma length_lru_remove_le: "length (lru_remove k xs) \<le> length xs"
  by (simp add: lru_remove_def)

lemma length_lru_remove_present:
  "distinct (map fst xs) \<Longrightarrow> map_of xs k = Some v \<Longrightarrow> Suc (length (lru_remove k xs)) = length xs"
proof (induction xs)
  case Nil
  then show ?case by simp
next
  case (Cons p xs)
  show ?case
  proof (cases "fst p = k")
    case True
    with Cons.prems have "map_of xs k = None"
      by (cases p) (auto simp: map_of_eq_None_iff)
    then have "lru_remove k xs = xs" by (rule lru_remove_absent)
    with True show ?thesis by (simp add: lru_remove_def)
  next
    case False
    with Cons show ?thesis by (cases p) (auto simp: lru_remove_def)
  qed
qed

lemma cache_ok_getitem: "cache_ok c \<Longrightarrow> cache_ok (snd (lru_getitem c k))"
proof (cases "map_of (lru_items c) k")
  case None
  assume "cache_ok c"
  with None show ?thesis by (simp add: lru_getitem_def)
next
  case (Some v)
  assume ok: "cache_ok c"
  then have d: "distinct (map fst (lru_items c))" by (simp add: cache_ok_def)
  from length_lru_remove_present [OF d Some] distinct_lru_remove [OF d, of k] ok Some
  show ?thesis
    by (auto simp: lru_getitem_def cache_ok_def keys_lru_remove)
qed

lemma cache_ok_get: "cache_ok c \<Longrightarrow> cache_ok (snd (lru_get c k))"
  using cache_ok_getitem [of c k]
  by (auto simp: lru_get_def split: prod.splits sum.splits)

lemma cache_ok_pop: "cache_ok c \<Longrightarrow> cache_ok (snd (lru_pop c k d))"
  using length_lru_remove_le [of k "lru_items c"]
  by (auto simp: lru_pop_def cache_ok_def distinct_lru_remove split: option.splits)

lemma lru_setitem_items:
  assumes "cache_ok c"
  shows "lru_items (lru_setitem c k v) = take (lru_size c) ((k, v) # lru_remove k (lru_items c))"
    and "lru_size (lru_setitem c k v) = lru_size c"
proof -
  from assms have d: "distinct (map fst (lru_items c))"
    and le: "length (lru_items c) \<le> lru_size c" and pos: "0 < lru_size c"
    by (simp_all add: cache_ok_def MAX_CACHED_SERVICES_def)
  show "lru_size (lru_setitem c k v) = lru_size c"
    by (simp add: lru_setitem_def split: option.splits)
  show "lru_items (lru_setitem c k v) = take (lru_size c) ((k, v) # lru_remove k (lru_items c))"
  proof (cases "map_of (lru_items c) k")
    case None
    then have same: "lru_remove k (lru_items c) = lru_items c" by (rule lru_remove_absent)
    show ?thesis
    proof (cases "lru_size c \<le> length (lru_items c)")
      case True
      with le have eq: "length (lru_items c) = lru_size c" by simp
      with pos obtain n where n: "lru_size c = Suc n" by (cases "lru_size c") auto
      with eq have "butlast (lru_items c) = take n (lru_items c)"
        by (simp add: butlast_conv_take)
      with None True same n show ?thesis by (simp add: lru_setitem_def)
    next
      case False
      with None same show ?thesis by (simp add: lru_setitem_def)
    qed
  next
    case (Some old)
    from length_lru_remove_present [OF d Some] le
    have "length ((k, v) # lru_remove k (lru_items c)) \<le> lru_size c" by simp
    with Some show ?thesis by (simp add: lru_setitem_def)
  qed
qed

lemma cache_ok_setitem:
  assumes "cache_ok c"
  shows "cache_ok (lru_setitem c k v)"
proof -
  from assms have d: "distinct (map fst (lru_items c))" by (simp add: cache_ok_def)
  have "distinct (map fst ((k, v) # lru_remove k (lru_items c)))"
    using distinct_lru_remove [OF d, of k] by (simp add: keys_lru_remove)
  then have "distinct (map fst (take (lru_size c) ((k, v) # lru_remove k (lru_items c))))"
    by (metis distinct_take take_map)
  with assms show ?thesis
    by (simp add: cache_ok_def lru_setitem_items [OF assms])
qed

subsection \<open>Every reachable registry is well formed\<close>

lemma cache_ok_init: "cache_ok (LRU_init MAX_CACHED_SERVICES)"
  by (simp add: cache_ok_def LRU_init_def)

lemma registry_ok_init: "registry_ok (DomainData_init, h0)"
  by (simp add: registry_ok_def DomainData_init_def cache_ok_init stores_ok_def)

lemma stores_ok_get_or_create_store:
  assumes "stores_ok self h"
  shows "stores_ok (fst (snd (get_or_create_store self h hass e)))
           (snd (snd (get_or_create_store self h hass e)))"
proof -
  let ?new = "ESPHomeStorageObj
     \<lparr>store_version = STORAGE_VERSION, store_key = ''esphome.'' @ entry_id e,
      store_encoder = Some JSONEncoder\<rparr>"
  have old: "r < length (h @ [?new]) \<and>
     (h @ [?new]) ! r = ESPHomeStorageObj
       \<lparr>store_version = STORAGE_VERSION, store_key = ''esphome.'' @ i,
        store_encoder = Some JSONEncoder\<rparr>"
    if "stores self i = Some r" for i r
  proof -
    from assms that have "r < length h \<and>
      h ! r = ESPHomeStorageObj
        \<lparr>store_version = STORAGE_VERSION, store_key = ''esphome.'' @ i,
         store_encoder = Some JSONEncoder\<rparr>"
      unfolding stores_ok_def by blast
    then show ?thesis by (simp add: nth_append)
  qed
  show ?thesis
  proof (cases "stores self (entry_id e)")
    case None
    then have "get_or_create_store self h hass e =
      (length h, self\<lparr>stores := (stores self)(entry_id e \<mapsto> length h)\<rparr>, h @ [?new])"
      by (simp add: get_or_create_store_def ESPHomeStorage_init_def alloc_def)
    with old show ?thesis
      by (auto simp: stores_ok_def)
  next
    case (Some r)
    then have "get_or_create_store self h hass e = (r, self, h @ [?new])"
      by (simp add: get_or_create_store_def ESPHomeStorage_init_def alloc_def)
    with old show ?thesis
      by (simp add: stores_ok_def)
  qed
qed

lemma caches_get_or_create_store:
  "gatt_services_cache (fst (snd (get_or_create_store self h hass e))) = gatt_services_cache self"
  "gatt_mtu_cache (fst (snd (get_or_create_store self h hass e))) = gatt_mtu_cache self"
  by (simp_all add: get_or_create_store_def ESPHomeStorage_init_def alloc_def
      split: option.splits)

lemma registry_ok_invoke: "registry_ok st \<Longrightarrow> registry_ok (invoke st c)"
proof (cases st)
  case (Pair self h)
  assume ok: "registry_ok st"
  with Pair have s: "cache_ok (gatt_services_cache self)" and m: "cache_ok (gatt_mtu_cache self)"
    and t: "stores_ok self h" by (simp_all add: registry_ok_def)
  show ?thesis
  proof (cases c)
    case (Get_gatt_services_cache a)
    with Pair s m t cache_ok_get [OF s, of a] show ?thesis
      by (auto simp: registry_ok_def get_gatt_services_cache_def stores_ok_def
          split: prod.splits)
  next
    case (Set_gatt_services_cache a v)
    with Pair s m t cache_ok_setitem [OF s, of a v] show ?thesis
      by (simp add: registry_ok_def set_gatt_services_cache_def stores_ok_def)
  next
    case (Clear_gatt_services_cache a)
    with Pair s m t cache_ok_pop [OF s, of a "Some None"] show ?thesis
      by (auto simp: registry_ok_def clear_gatt_services_cache_def stores_ok_def
          split: prod.splits sum.splits)
  next
    case (Get_gatt_mtu_cache a)
    with Pair s m t cache_ok_get [OF m, of a] show ?thesis
      by (auto simp: registry_ok_def get_gatt_mtu_cache_def stores_ok_def
          split: prod.splits)
  next
    case (Set_gatt_mtu_cache a v)
    with Pair s m t cache_ok_setitem [OF m, of a v] show ?thesis
      by (simp add: registry_ok_def set_gatt_mtu_cache_def stores_ok_def)
  next
    case (Clear_gatt_mtu_cache a)
    with Pair s m t cache_ok_pop [OF m, of a "Some None"] show ?thesis
      by (auto simp: registry_ok_def clear_gatt_mtu_cache_def stores_ok_def
          split: prod.splits sum.splits)
  next
    case (Get_entry_data e)
    with Pair s m t show ?thesis
      by (simp add: registry_ok_def get_entry_data_def stores_ok_def split: option.splits)
  next
    case (Set_entry_data e d)
    with Pair s m t show ?thesis
      by (simp add: registry_ok_def set_entry_data_def stores_ok_def)
  next
    case (Pop_entry_data e)
    with Pair s m t show ?thesis
      by (simp add: registry_ok_def pop_entry_data_def stores_ok_def split: option.splits)
  next
    case (Get_or_create_store hass e)
    with Pair s m stores_ok_get_or_create_store [OF t, of hass e] show ?thesis
      by (simp add: registry_ok_def caches_get_or_create_store)
  qed
qed

lemma registry_ok_invoke_all: "registry_ok st \<Longrightarrow> registry_ok (invoke_all st cs)"
  unfolding invoke_all_def
  by (induction cs arbitrary: st) (simp_all add: registry_ok_invoke)

lemma registry_ok_reachable:
  "invoke_all (DomainData_init, h0) cs = (self, h) \<Longrightarrow> registry_ok (self, h)"
  using registry_ok_invoke_all [OF registry_ok_init, of h0 cs] by simp

subsection \<open>The store map only grows\<close>

lemma get_or_create_store_stored:
  "get_or_create_store self h hass e = (r, self', h') \<Longrightarrow> stores self' (entry_id e) = Some r"
  by (auto simp: get_or_create_store_def ESPHomeStorage_init_def alloc_def split: option.splits)

lemma get_or_create_store_keeps:
  "get_or_create_store self h hass e = (r, self', h') \<Longrightarrow> stores self i = Some x \<Longrightarrow>
   stores self' i = Some x"
  by (auto simp: get_or_create_store_def ESPHomeStorage_init_def alloc_def split: option.splits)

lemma invoke_keeps_store:
  "stores (fst st) i = Some x \<Longrightarrow> stores (fst (invoke st c)) i = Some x"
proof (cases st)
  case (Pair self h)
  assume "stores (fst st) i = Some x"
  with Pair have x: "stores self i = Some x" by simp
  show ?thesis
  proof (cases c)
    case (Get_or_create_store hass e)
    from get_or_create_store_keeps [OF _ x, of h hass e] Pair Get_or_create_store
    show ?thesis by (cases "get_or_create_store self h hass e") simp
  qed (use Pair x in \<open>auto simp: get_gatt_services_cache_def set_gatt_services_cache_def
      clear_gatt_services_cache_def get_gatt_mtu_cache_def set_gatt_mtu_cache_def
      clear_gatt_mtu_cache_def get_entry_data_def set_entry_data_def pop_entry_data_def
      split: prod.splits sum.splits option.splits\<close>)
qed

lemma invoke_all_keeps_store:
  "stores (fst st) i = Some x \<Longrightarrow> stores (fst (invoke_all st cs)) i = Some x"
  unfolding invoke_all_def
  by (induction cs arbitrary: st) (simp_all add: invoke_keeps_store)

subsection \<open>Lookups and overwrites\<close>

lemma fst_get_gatt_services_cache:
  "fst (get_gatt_services_cache self a) = Inr (map_of (lru_items (gatt_services_cache self)) a)"
  by (simp add: get_gatt_services_cache_def lru_get_def lru_getitem_def
      split: option.splits prod.splits sum.splits)

lemma fst_get_gatt_mtu_cache:
  "fst (get_gatt_mtu_cache self a) = Inr (map_of (lru_items (gatt_mtu_cache self)) a)"
  by (simp add: get_gatt_mtu_cache_def lru_get_def lru_getitem_def
      split: option.splits prod.splits sum.splits)

lemma lru_overwrite:
  assumes ok: "cache_ok c" and present: "map_of (lru_items c) k = Some old"
  shows "map_of (lru_items (lru_setitem c k v)) k = Some v"
    and "length (lru_items (lru_setitem c k v)) = length (lru_items c)"
    and "hd (lru_items (lru_setitem c k v)) = (k, v)"
    and "map_of (lru_items (lru_setitem (lru_setitem c k v) k' v')) k =
           Some (if k' = k then v' else v)"
proof -
  let ?c1 = "lru_setitem c k v"
  from ok have d: "distinct (map fst (lru_items c))" by (simp add: cache_ok_def)
  from present have items1: "lru_items ?c1 = (k, v) # lru_remove k (lru_items c)"
    by (simp add: lru_setitem_def)
  from items1 show "map_of (lru_items ?c1) k = Some v" by simp
  from items1 length_lru_remove_present [OF d present]
  show "length (lru_items ?c1) = length (lru_items c)" by simp
  from items1 show "hd (lru_items ?c1) = (k, v)" by simp
  have ok1: "cache_ok ?c1" using ok by (rule cache_ok_setitem)
  then have size1: "lru_size ?c1 = 128" by (simp add: cache_ok_def MAX_CACHED_SERVICES_def)
  show "map_of (lru_items (lru_setitem ?c1 k' v')) k = Some (if k' = k then v' else v)"
    by (simp add: lru_setitem_items [OF ok1] size1 items1 lru_remove_def)
qed

subsection \<open>Insertions in a row\<close>







subsection \<open>A lookup hit refreshes recency\<close>











section \<open>Entry runtime data\<close>

text \<open>
  C1. After \<open>set_entry_data(entry, data)\<close> succeeds, \<open>get_entry_data(entry)\<close> returns
  \<open>data\<close>. Whenever nothing is registered under the entry's identifier, both
  \<open>get_entry_data\<close> and \<open>pop_entry_data\<close> raise \<open>KeyError\<close>; that is the case in a
  new registry (never registered) and after a \<open>pop_entry_data\<close> that succeeded (removed).
\<close>

theorem entry_data_round_trip:
  "(set_entry_data self entry d = (Inr (), self') \<longrightarrow>
      get_entry_data self' entry = (Inr d, self')) \<and>
   (entry_datas self (entry_id entry) = None \<longrightarrow>
      fst (get_entry_data self entry) = Inl KeyError \<and>
      fst (pop_entry_data self entry) = Inl KeyError) \<and>
   (pop_entry_data self entry = (Inr d, self') \<longrightarrow>
      entry_datas self' (entry_id entry) = None) \<and>
   entry_datas DomainData_init (entry_id entry) = None"
  by (auto simp: set_entry_data_def get_entry_data_def pop_entry_data_def DomainData_init_def
      split: if_splits option.splits)

theorem entry_data_round_trip_witness:
  "set_entry_data DomainData_init entry_a 7 =
     (Inr (), snd (set_entry_data DomainData_init entry_a 7)) \<and>
   fst (get_entry_data (snd (set_entry_data DomainData_init entry_a 7)) entry_a) = Inr 7 \<and>
   entry_datas DomainData_init (entry_id entry_a) = None \<and>
   fst (get_entry_data DomainData_init entry_a) = Inl KeyError \<and>
   fst (pop_entry_data DomainData_init entry_a) = Inl KeyError \<and>
   fst (pop_entry_data (snd (set_entry_data DomainData_init entry_a 7)) entry_a) = Inr 7 \<and>
   fst (get_entry_data
          (snd (pop_entry_data (snd (set_entry_data DomainData_init entry_a 7)) entry_a))
          entry_a) = Inl KeyError"
proof -
  let ?s1 = "snd (set_entry_data DomainData_init entry_a 7)"
  let ?s2 = "snd (pop_entry_data ?s1 entry_a)"
  have set_ok: "set_entry_data DomainData_init entry_a 7 = (Inr (), ?s1)"
    by (simp add: set_entry_data_def DomainData_init_def)
  have pop_ok: "pop_entry_data ?s1 entry_a = (Inr 7, ?s2)"
    by (simp add: set_entry_data_def pop_entry_data_def DomainData_init_def)
  have fresh: "entry_datas DomainData_init (entry_id entry_a) = None"
    by (simp add: DomainData_init_def)
  from entry_data_round_trip [of DomainData_init entry_a 7 ?s1] set_ok
  have g1: "fst (get_entry_data ?s1 entry_a) = Inr 7" by simp
  from entry_data_round_trip [of DomainData_init entry_a 7 ?s1] fresh
  have g2: "fst (get_entry_data DomainData_init entry_a) = Inl KeyError"
    and g3: "fst (pop_entry_data DomainData_init entry_a) = Inl KeyError" by simp_all
  from entry_data_round_trip [of ?s1 entry_a 7 ?s2] pop_ok
  have "entry_datas ?s2 (entry_id entry_a) = None" by simp
  with entry_data_round_trip [of ?s2 entry_a 7 ?s1]
  have g4: "fst (get_entry_data ?s2 entry_a) = Inl KeyError" by simp
  have g5: "fst (pop_entry_data ?s1 entry_a) = Inr 7"
    by (simp add: set_entry_data_def pop_entry_data_def DomainData_init_def)
  show ?thesis using set_ok fresh g1 g2 g3 g4 g5 by simp
qed

text \<open>
  C2. When runtime data \<open>data1\<close> is registered under the entry's identifier, a further
  \<open>set_entry_data(entry, data2)\<close> raises \<open>ValueError\<close>, the registry is the same after
  the failed call, and \<open>get_entry_data(entry)\<close> still returns \<open>data1\<close>.
\<close>

theorem double_registration_rejected:
  "entry_datas self (entry_id entry) = Some data1 \<Longrightarrow>
   fst (set_entry_data self entry data2) =
     Inl (ValueError ''Entry data for this entry is already set'') \<and>
   snd (set_entry_data self entry data2) = self \<and>
   fst (get_entry_data (snd (set_entry_data self entry data2)) entry) = Inr data1"
  by (simp add: set_entry_data_def get_entry_data_def)

theorem double_registration_rejected_witness:
  "entry_datas (snd (set_entry_data DomainData_init entry_a 7)) (entry_id entry_a) = Some 7 \<and>
   fst (set_entry_data (snd (set_entry_data DomainData_init entry_a 7)) entry_a 8) =
     Inl (ValueError ''Entry data for this entry is already set'') \<and>
   snd (set_entry_data (snd (set_entry_data DomainData_init entry_a 7)) entry_a 8) =
     snd (set_entry_data DomainData_init entry_a 7) \<and>
   fst (get_entry_data
          (snd (set_entry_data (snd (set_entry_data DomainData_init entry_a 7)) entry_a 8))
          entry_a) = Inr 7"
proof -
  have reg: "entry_datas (snd (set_entry_data DomainData_init entry_a 7)) (entry_id entry_a) = Some 7"
    by (simp add: set_entry_data_def DomainData_init_def)
  show ?thesis
    by (rule conjI [OF reg double_registration_rejected [OF reg, of 8]])
qed

text \<open>
  C10. The entry-keyed methods read nothing of the entry but its identifier: for two
  config entries with equal identifiers, \<open>get_entry_data\<close>, \<open>set_entry_data\<close>,
  \<open>pop_entry_data\<close> and \<open>get_or_create_store\<close> give the same result and the same
  state.
\<close>

theorem entry_operations_depend_on_entry_id_only:
  "entry_id e1 = entry_id e2 \<Longrightarrow>
   get_entry_data self e1 = get_entry_data self e2 \<and>
   set_entry_data self e1 d = set_entry_data self e2 d \<and>
   pop_entry_data self e1 = pop_entry_data self e2 \<and>
   get_or_create_store self h hass e1 = get_or_create_store self h hass e2"
  by (simp add: get_entry_data_def set_entry_data_def pop_entry_data_def
      get_or_create_store_def split: option.splits prod.splits)

theorem entry_operations_depend_on_entry_id_only_witness:
  "entry_id entry_a = entry_id entry_a' \<and> entry_a \<noteq> entry_a' \<and>
   get_entry_data DomainData_init entry_a = get_entry_data DomainData_init entry_a' \<and>
   set_entry_data DomainData_init entry_a 7 = set_entry_data DomainData_init entry_a' 7 \<and>
   pop_entry_data DomainData_init entry_a = pop_entry_data DomainData_init entry_a' \<and>
   get_or_create_store DomainData_init [] hass_empty entry_a =
     get_or_create_store DomainData_init [] hass_empty entry_a'"
proof -
  have same: "entry_id entry_a = entry_id entry_a'"
    by (simp add: entry_a_def entry_a'_def)
  have differ: "entry_a \<noteq> entry_a'"
    by (simp add: entry_a_def entry_a'_def)
  from entry_operations_depend_on_entry_id_only [OF same, of DomainData_init 7 "[]" hass_empty]
    same differ show ?thesis by simp
qed

section \<open>The GATT caches\<close>

text \<open>
  C7. The cache lookups \<open>get_gatt_services_cache\<close> and \<open>get_gatt_mtu_cache\<close> never
  raise, and on a miss they return \<open>None\<close> and leave the registry as it was. The cache
  clears \<open>clear_gatt_services_cache\<close> and \<open>clear_gatt_mtu_cache\<close> never raise, and
  for an address that is absent they leave the registry unchanged.
\<close>

theorem cache_lookup_and_clear_never_raise:
  "(\<exists>v. fst (get_gatt_services_cache self a) = Inr v) \<and>
   (\<exists>v. fst (get_gatt_mtu_cache self a) = Inr v) \<and>
   (map_of (lru_items (gatt_services_cache self)) a = None \<longrightarrow>
      get_gatt_services_cache self a = (Inr None, self)) \<and>
   (map_of (lru_items (gatt_mtu_cache self)) a = None \<longrightarrow>
      get_gatt_mtu_cache self a = (Inr None, self)) \<and>
   fst (clear_gatt_services_cache self a) = Inr () \<and>
   fst (clear_gatt_mtu_cache self a) = Inr () \<and>
   (map_of (lru_items (gatt_services_cache self)) a = None \<longrightarrow>
      clear_gatt_services_cache self a = (Inr (), self)) \<and>
   (map_of (lru_items (gatt_mtu_cache self)) a = None \<longrightarrow>
      clear_gatt_mtu_cache self a = (Inr (), self))"
  by (auto simp: get_gatt_services_cache_def get_gatt_mtu_cache_def
      clear_gatt_services_cache_def clear_gatt_mtu_cache_def
      lru_get_def lru_getitem_def lru_pop_def split: option.splits prod.splits sum.splits)

theorem cache_lookup_and_clear_never_raise_witness:
  "map_of (lru_items (gatt_services_cache DomainData_init)) 5 = None \<and>
   map_of (lru_items (gatt_mtu_cache DomainData_init)) 5 = None \<and>
   get_gatt_services_cache DomainData_init 5 = (Inr None, DomainData_init) \<and>
   get_gatt_mtu_cache DomainData_init 5 = (Inr None, DomainData_init) \<and>
   clear_gatt_services_cache DomainData_init 5 = (Inr (), DomainData_init) \<and>
   clear_gatt_mtu_cache DomainData_init 5 = (Inr (), DomainData_init)"
proof -
  have s: "map_of (lru_items (gatt_services_cache DomainData_init)) (5::int) = None"
    and m: "map_of (lru_items (gatt_mtu_cache DomainData_init)) (5::int) = None"
    by (simp_all add: DomainData_init_def LRU_init_def)
  from cache_lookup_and_clear_never_raise [of DomainData_init 5] s m show ?thesis by simp
qed

text \<open>
  C9. Every operation on the GATT services cache (get, set, clear) leaves the MTU cache
  as it was, and every operation on the MTU cache leaves the services cache as it was.
\<close>

theorem gatt_caches_independent:
  "gatt_mtu_cache (snd (get_gatt_services_cache self a)) = gatt_mtu_cache self \<and>
   gatt_mtu_cache (snd (set_gatt_services_cache self a services)) = gatt_mtu_cache self \<and>
   gatt_mtu_cache (snd (clear_gatt_services_cache self a)) = gatt_mtu_cache self \<and>
   gatt_services_cache (snd (get_gatt_mtu_cache self a)) = gatt_services_cache self \<and>
   gatt_services_cache (snd (set_gatt_mtu_cache self a mtu)) = gatt_services_cache self \<and>
   gatt_services_cache (snd (clear_gatt_mtu_cache self a)) = gatt_services_cache self"
  by (simp add: get_gatt_services_cache_def set_gatt_services_cache_def
      clear_gatt_services_cache_def get_gatt_mtu_cache_def set_gatt_mtu_cache_def
      clear_gatt_mtu_cache_def split: prod.splits sum.splits)

text \<open>
  C8. In a registry reached from \<open>DomainData()\<close> by any calls, setting a cache entry for
  an address that is present returns normally, makes the lookup return the new value,
  leaves the number of entries as it was, and puts the entry first in the recency order;
  whatever address is set next, the entry is still there afterwards, so it is not the one
  evicted. This holds for the services cache and for the MTU cache.
\<close>

theorem cache_overwrite:
  assumes reach: "invoke_all (DomainData_init, h0) calls = (self, h)"
  shows
    "(map_of (lru_items (gatt_services_cache self)) a = Some old \<and>
      set_gatt_services_cache self a v = (res, self') \<longrightarrow>
        res = Inr () \<and>
        fst (get_gatt_services_cache self' a) = Inr (Some v) \<and>
        length (lru_items (gatt_services_cache self')) =
          length (lru_items (gatt_services_cache self)) \<and>
        hd (lru_items (gatt_services_cache self')) = (a, v) \<and>
        (\<forall>a' v'. fst (get_gatt_services_cache (snd (set_gatt_services_cache self' a' v')) a) =
           Inr (Some (if a' = a then v' else v)))) \<and>
     (map_of (lru_items (gatt_mtu_cache self)) b = Some old_mtu \<and>
      set_gatt_mtu_cache self b m = (res_mtu, self'') \<longrightarrow>
        res_mtu = Inr () \<and>
        fst (get_gatt_mtu_cache self'' b) = Inr (Some m) \<and>
        length (lru_items (gatt_mtu_cache self'')) =
          length (lru_items (gatt_mtu_cache self)) \<and>
        hd (lru_items (gatt_mtu_cache self'')) = (b, m) \<and>
        (\<forall>b' m'. fst (get_gatt_mtu_cache (snd (set_gatt_mtu_cache self'' b' m')) b) =
           Inr (Some (if b' = b then m' else m))))"
proof -
  from registry_ok_reachable [OF reach]
  have s: "cache_ok (gatt_services_cache self)" and t: "cache_ok (gatt_mtu_cache self)"
    by (simp_all add: registry_ok_def)
  have services: "res = Inr () \<and>
        fst (get_gatt_services_cache self' a) = Inr (Some v) \<and>
        length (lru_items (gatt_services_cache self')) =
          length (lru_items (gatt_services_cache self)) \<and>
        hd (lru_items (gatt_services_cache self')) = (a, v) \<and>
        (\<forall>a' v'. fst (get_gatt_services_cache (snd (set_gatt_services_cache self' a' v')) a) =
           Inr (Some (if a' = a then v' else v)))"
    if present: "map_of (lru_items (gatt_services_cache self)) a = Some old"
      and call: "set_gatt_services_cache self a v = (res, self')"
  proof -
    from call have res: "res = Inr ()"
      and c': "gatt_services_cache self' = lru_setitem (gatt_services_cache self) a v"
      by (auto simp: set_gatt_services_cache_def)
    from lru_overwrite [OF s present, of v] res c' show ?thesis
      by (simp add: fst_get_gatt_services_cache set_gatt_services_cache_def)
  qed
  have mtu: "res_mtu = Inr () \<and>
        fst (get_gatt_mtu_cache self'' b) = Inr (Some m) \<and>
        length (lru_items (gatt_mtu_cache self'')) =
          length (lru_items (gatt_mtu_cache self)) \<and>
        hd (lru_items (gatt_mtu_cache self'')) = (b, m) \<and>
        (\<forall>b' m'. fst (get_gatt_mtu_cache (snd (set_gatt_mtu_cache self'' b' m')) b) =
           Inr (Some (if b' = b then m' else m)))"
    if present: "map_of (lru_items (gatt_mtu_cache self)) b = Some old_mtu"
      and call: "set_gatt_mtu_cache self b m = (res_mtu, self'')"
  proof -
    from call have res: "res_mtu = Inr ()"
      and c': "gatt_mtu_cache self'' = lru_setitem (gatt_mtu_cache self) b m"
      by (auto simp: set_gatt_mtu_cache_def)
    from lru_overwrite [OF t present, of m] res c' show ?thesis
      by (simp add: fst_get_gatt_mtu_cache set_gatt_mtu_cache_def)
  qed
  from services mtu show ?thesis by blast
qed

theorem cache_overwrite_witness:
  "invoke_all (DomainData_init, []) [Set_gatt_services_cache 5 1, Set_gatt_mtu_cache 5 23] =
     (registry_5, []) \<and>
   map_of (lru_items (gatt_services_cache registry_5)) 5 = Some 1 \<and>
   map_of (lru_items (gatt_mtu_cache registry_5)) 5 = Some 23 \<and>
   fst (get_gatt_services_cache (snd (set_gatt_services_cache registry_5 5 2)) 5) =
     Inr (Some 2) \<and>
   length (lru_items (gatt_services_cache (snd (set_gatt_services_cache registry_5 5 2)))) =
     length (lru_items (gatt_services_cache registry_5)) \<and>
   fst (get_gatt_mtu_cache (snd (set_gatt_mtu_cache registry_5 5 185)) 5) = Inr (Some 185) \<and>
   length (lru_items (gatt_mtu_cache (snd (set_gatt_mtu_cache registry_5 5 185)))) =
     length (lru_items (gatt_mtu_cache registry_5))"
proof -
  let ?s = "snd (set_gatt_services_cache registry_5 5 2)"
  let ?m = "snd (set_gatt_mtu_cache registry_5 5 185)"
  have reach: "invoke_all (DomainData_init, [])
      [Set_gatt_services_cache 5 1, Set_gatt_mtu_cache 5 23] = (registry_5, [])"
    by (simp add: invoke_all_def set_gatt_services_cache_def set_gatt_mtu_cache_def
        lru_setitem_def DomainData_init_def LRU_init_def MAX_CACHED_SERVICES_def registry_5_def)
  have ps: "map_of (lru_items (gatt_services_cache registry_5)) 5 = Some 1"
    and pm: "map_of (lru_items (gatt_mtu_cache registry_5)) 5 = Some 23"
    by (simp_all add: registry_5_def)
  have cs: "set_gatt_services_cache registry_5 5 2 = (Inr (), ?s)"
    and cm: "set_gatt_mtu_cache registry_5 5 185 = (Inr (), ?m)"
    by (simp_all add: set_gatt_services_cache_def set_gatt_mtu_cache_def)
  from cache_overwrite [OF reach, of 5 1 2 "Inr ()" ?s 5 23 185 "Inr ()" ?m] ps pm cs cm
  have "fst (get_gatt_services_cache ?s 5) = Inr (Some 2) \<and>
    length (lru_items (gatt_services_cache ?s)) =
      length (lru_items (gatt_services_cache registry_5)) \<and>
    fst (get_gatt_mtu_cache ?m 5) = Inr (Some 185) \<and>
    length (lru_items (gatt_mtu_cache ?m)) = length (lru_items (gatt_mtu_cache registry_5))"
    by blast
  with reach ps pm show ?thesis by blast
qed



section \<open>The instance in \<open>hass.data\<close>\<close>

text \<open>
  C5. A second \<open>DomainData.get\<close> on the state the first one left returns the same
  reference and changes nothing. On a state without the \<open>DOMAIN\<close> key, \<open>get\<close>
  constructs a new registry, stores its reference under \<open>DOMAIN\<close> and returns it; the
  registry constructed has an empty entry-data map, an empty store map and two empty
  caches of capacity 128.
\<close>

theorem get_returns_single_instance:
  "(get h hass = (r1, h1, hass1) \<longrightarrow> get h1 hass1 = (r1, h1, hass1)) \<and>
   (data hass DOMAIN = None \<longrightarrow>
      get h hass =
        (length h, h @ [DomainDataObj DomainData_init],
         hass\<lparr>data := (data hass)(DOMAIN \<mapsto> length h)\<rparr>) \<and>
      (h @ [DomainDataObj DomainData_init]) ! length h = DomainDataObj DomainData_init) \<and>
   entry_datas DomainData_init = Map.empty \<and>
   stores DomainData_init = Map.empty \<and>
   lru_items (gatt_services_cache DomainData_init) = [] \<and>
   lru_items (gatt_mtu_cache DomainData_init) = [] \<and>
   lru_size (gatt_services_cache DomainData_init) = 128 \<and>
   lru_size (gatt_mtu_cache DomainData_init) = 128"
  by (auto simp: get_def alloc_def DomainData_init_def LRU_init_def MAX_CACHED_SERVICES_def
      split: option.splits)

theorem get_returns_single_instance_witness:
  "data hass_empty DOMAIN = None \<and>
   get [] hass_empty =
     (0, [DomainDataObj DomainData_init], hass_empty\<lparr>data := [DOMAIN \<mapsto> 0]\<rparr>) \<and>
   get [DomainDataObj DomainData_init] (hass_empty\<lparr>data := [DOMAIN \<mapsto> 0]\<rparr>) =
     (0, [DomainDataObj DomainData_init], hass_empty\<lparr>data := [DOMAIN \<mapsto> 0]\<rparr>)"
proof -
  have absent: "data hass_empty DOMAIN = None"
    by (simp add: hass_empty_def)
  from get_returns_single_instance [of "[]" hass_empty] absent
  have first: "get [] hass_empty =
     (0, [DomainDataObj DomainData_init], hass_empty\<lparr>data := [DOMAIN \<mapsto> 0]\<rparr>)"
    by (simp add: hass_empty_def)
  from get_returns_single_instance
    [of "[]" hass_empty 0 "[DomainDataObj DomainData_init]" "hass_empty\<lparr>data := [DOMAIN \<mapsto> 0]\<rparr>"]
    first
  have second: "get [DomainDataObj DomainData_init] (hass_empty\<lparr>data := [DOMAIN \<mapsto> 0]\<rparr>) =
     (0, [DomainDataObj DomainData_init], hass_empty\<lparr>data := [DOMAIN \<mapsto> 0]\<rparr>)"
    by blast
  from absent first second show ?thesis by blast
qed

section \<open>Storage handles\<close>

text \<open>
  C6, as stated, fails: after a first \<open>get_or_create_store\<close> for \<open>entry_a\<close>, a second
  call returns the stored handle \<open>0\<close>, and the heap has a second storage object, the one
  constructed for the argument of \<open>setdefault\<close>.
\<close>

theorem store_not_reconstructed_counterexample:
  "get_or_create_store DomainData_init [] hass_empty entry_a =
   (0, DomainData_init\<lparr>stores := [''a1'' \<mapsto> 0]\<rparr>,
    [ESPHomeStorageObj
       \<lparr>store_version = 1, store_key = ''esphome.a1'', store_encoder = Some JSONEncoder\<rparr>]) \<and>
   stores (DomainData_init\<lparr>stores := [''a1'' \<mapsto> 0]\<rparr>) (entry_id entry_a) = Some 0 \<and>
   get_or_create_store (DomainData_init\<lparr>stores := [''a1'' \<mapsto> 0]\<rparr>)
     [ESPHomeStorageObj
        \<lparr>store_version = 1, store_key = ''esphome.a1'', store_encoder = Some JSONEncoder\<rparr>]
     hass_empty entry_a =
   (0, DomainData_init\<lparr>stores := [''a1'' \<mapsto> 0]\<rparr>,
    [ESPHomeStorageObj
       \<lparr>store_version = 1, store_key = ''esphome.a1'', store_encoder = Some JSONEncoder\<rparr>,
     ESPHomeStorageObj
       \<lparr>store_version = 1, store_key = ''esphome.a1'', store_encoder = Some JSONEncoder\<rparr>])"
  by (simp add: get_or_create_store_def ESPHomeStorage_init_def alloc_def entry_a_def
      STORAGE_VERSION_def DomainData_init_def)

text \<open>
  C6, amended. When the store map has a handle for the entry's identifier,
  \<open>get_or_create_store\<close> returns that handle and leaves the registry unchanged; the
  call still constructs one new storage object (version 1, key \<open>"esphome." + entry_id\<close>),
  which no map refers to, and leaves the objects already on the heap as they were.
\<close>

theorem store_reused_when_present:
  "stores self (entry_id entry) = Some store \<Longrightarrow>
   get_or_create_store self h hass entry =
     (store, self,
      h @ [ESPHomeStorageObj
             \<lparr>store_version = 1, store_key = ''esphome.'' @ entry_id entry,
              store_encoder = Some JSONEncoder\<rparr>])"
  by (simp add: get_or_create_store_def ESPHomeStorage_init_def alloc_def STORAGE_VERSION_def)

theorem store_reused_when_present_witness:
  "stores (DomainData_init\<lparr>stores := [''a1'' \<mapsto> 0]\<rparr>) (entry_id entry_a) = Some 0 \<and>
   fst (get_or_create_store (DomainData_init\<lparr>stores := [''a1'' \<mapsto> 0]\<rparr>)
     [ESPHomeStorageObj
        \<lparr>store_version = 1, store_key = ''esphome.a1'', store_encoder = Some JSONEncoder\<rparr>]
     hass_empty entry_a) = 0"
proof -
  have present: "stores (DomainData_init\<lparr>stores := [''a1'' \<mapsto> 0]\<rparr>) (entry_id entry_a) = Some 0"
    by (simp add: entry_a_def)
  from store_reused_when_present [OF present] present show ?thesis by simp
qed

text \<open>
  C3. In a registry reached from \<open>DomainData()\<close> by any calls, take a call of
  \<open>get_or_create_store\<close>, any further calls, and a second call of
  \<open>get_or_create_store\<close>. The second call returns the same reference as the first when
  the two entries have the same identifier, and a different one otherwise; either
  reference is a storage object on the heap with version 1, key
  \<open>"esphome." + entry_id\<close> and the JSON encoder.
\<close>

theorem store_memoized:
  assumes reach: "invoke_all (DomainData_init, h0) calls = (self, h)"
    and first: "get_or_create_store self h hass1 e1 = (r1, self1, h1)"
    and between: "invoke_all (self1, h1) calls' = (self1', h1')"
    and second: "get_or_create_store self1' h1' hass2 e2 = (r2, self2, h2)"
  shows "(entry_id e2 = entry_id e1 \<longrightarrow> r2 = r1) \<and>
    (entry_id e2 \<noteq> entry_id e1 \<longrightarrow> r2 \<noteq> r1) \<and>
    r1 < length h2 \<and> r2 < length h2 \<and>
    h2 ! r1 = ESPHomeStorageObj
      \<lparr>store_version = 1, store_key = ''esphome.'' @ entry_id e1,
       store_encoder = Some JSONEncoder\<rparr> \<and>
    h2 ! r2 = ESPHomeStorageObj
      \<lparr>store_version = 1, store_key = ''esphome.'' @ entry_id e2,
       store_encoder = Some JSONEncoder\<rparr>"
proof -
  from registry_ok_reachable [OF reach] have "stores_ok self h"
    by (simp add: registry_ok_def)
  from stores_ok_get_or_create_store [OF this, of hass1 e1] first
  have "registry_ok (self1, h1)"
    using registry_ok_reachable [OF reach] caches_get_or_create_store [of self h hass1 e1]
    by (simp add: registry_ok_def)
  from registry_ok_invoke_all [OF this, of calls'] between
  have "stores_ok self1' h1'" by (simp add: registry_ok_def)
  from stores_ok_get_or_create_store [OF this, of hass2 e2] second
  have ok2: "stores_ok self2 h2" by simp
  from get_or_create_store_stored [OF first]
  have "stores (fst (self1, h1)) (entry_id e1) = Some r1" by simp
  from invoke_all_keeps_store [OF this, of calls'] between
  have "stores self1' (entry_id e1) = Some r1" by simp
  from get_or_create_store_keeps [OF second this]
  have s1: "stores self2 (entry_id e1) = Some r1" .
  from get_or_create_store_stored [OF second]
  have s2: "stores self2 (entry_id e2) = Some r2" .
  from ok2 s1 have o1: "r1 < length h2 \<and> h2 ! r1 = ESPHomeStorageObj
      \<lparr>store_version = 1, store_key = ''esphome.'' @ entry_id e1,
       store_encoder = Some JSONEncoder\<rparr>"
    unfolding stores_ok_def STORAGE_VERSION_def by blast
  from ok2 s2 have o2: "r2 < length h2 \<and> h2 ! r2 = ESPHomeStorageObj
      \<lparr>store_version = 1, store_key = ''esphome.'' @ entry_id e2,
       store_encoder = Some JSONEncoder\<rparr>"
    unfolding stores_ok_def STORAGE_VERSION_def by blast
  have same: "r2 = r1" if "entry_id e2 = entry_id e1"
    using that s1 s2 by simp
  have differ: "r2 \<noteq> r1" if "entry_id e2 \<noteq> entry_id e1"
  proof
    assume "r2 = r1"
    with o1 o2 have "entry_id e2 = entry_id e1" by simp
    with that show False by simp
  qed
  from same differ o1 o2 show ?thesis by blast
qed

theorem store_memoized_witness:
  "invoke_all (DomainData_init, []) [] = (DomainData_init, []) \<and>
   fst (get_or_create_store DomainData_init [] hass_empty entry_a) = 0 \<and>
   fst (get_or_create_store
          (fst (snd (get_or_create_store DomainData_init [] hass_empty entry_a)))
          (snd (snd (get_or_create_store DomainData_init [] hass_empty entry_a)))
          hass_empty entry_a') = 0 \<and>
   fst (get_or_create_store
          (fst (snd (get_or_create_store DomainData_init [] hass_empty entry_a)))
          (snd (snd (get_or_create_store DomainData_init [] hass_empty entry_a)))
          hass_empty entry_b) \<noteq> 0"
proof -
  let ?s1 = "fst (snd (get_or_create_store DomainData_init [] hass_empty entry_a))"
  let ?h1 = "snd (snd (get_or_create_store DomainData_init [] hass_empty entry_a))"
  have reach: "invoke_all (DomainData_init, []) [] = (DomainData_init, [])"
    by (simp add: invoke_all_def)
  have first: "get_or_create_store DomainData_init [] hass_empty entry_a = (0, ?s1, ?h1)"
    by (simp add: get_or_create_store_def ESPHomeStorage_init_def alloc_def
        DomainData_init_def)
  have between: "invoke_all (?s1, ?h1) [] = (?s1, ?h1)"
    by (simp add: invoke_all_def)
  have again: "get_or_create_store ?s1 ?h1 hass_empty entry_a' =
      (fst (get_or_create_store ?s1 ?h1 hass_empty entry_a'),
       fst (snd (get_or_create_store ?s1 ?h1 hass_empty entry_a')),
       snd (snd (get_or_create_store ?s1 ?h1 hass_empty entry_a')))"
    by simp
  have other: "get_or_create_store ?s1 ?h1 hass_empty entry_b =
      (fst (get_or_create_store ?s1 ?h1 hass_empty entry_b),
       fst (snd (get_or_create_store ?s1 ?h1 hass_empty entry_b)),
       snd (snd (get_or_create_store ?s1 ?h1 hass_empty entry_b)))"
    by simp
  have ids: "entry_id entry_a' = entry_id entry_a" "entry_id entry_b \<noteq> entry_id entry_a"
    by (simp_all add: entry_a_def entry_a'_def entry_b_def)
  from store_memoized [OF reach first between again] ids
  have r_same: "fst (get_or_create_store ?s1 ?h1 hass_empty entry_a') = 0" by blast
  from store_memoized [OF reach first between other] ids
  have r_other: "fst (get_or_create_store ?s1 ?h1 hass_empty entry_b) \<noteq> 0" by blast
  from first have r_first: "fst (get_or_create_store DomainData_init [] hass_empty entry_a) = 0"
    by (metis fst_conv)
  from reach r_first r_same r_other show ?thesis by blast
qed

end
